theory Spec2Isabelle
  imports Main
begin

section \<open>The import checker \<^verbatim>\<open>check_imports.py\<close>\<close>

text \<open>
  The script walks a source tree, reads every \<^verbatim>\<open>.ts\<close>/\<^verbatim>\<open>.tsx\<close> file, extracts
  the module specifiers that follow a \<^verbatim>\<open>from\<close> token and tests whether the local ones
  resolve to something that exists. Python strings are modelled as \<^typ>\<open>string\<close>, one
  \<^typ>\<open>char\<close> per code point of the decoded text (code points below 256); paths are
  POSIX paths, as the root \<^verbatim>\<open>/app/vitereact/src\<close> of the script is.
\<close>

subsection \<open>String and path functions of the Python library\<close>

text \<open>\<^verbatim>\<open>str.startswith\<close> and \<^verbatim>\<open>str.endswith\<close>.\<close>

definition startswith :: "string \<Rightarrow> string \<Rightarrow> bool" where
  "startswith s p = (take (length p) s = p)"

definition endswith :: "string \<Rightarrow> string \<Rightarrow> bool" where
  "endswith s p = (length p \<le> length s \<and> drop (length s - length p) s = p)"

text \<open>
  \<^verbatim>\<open>posixpath.join(a, b)\<close>: an absolute \<open>b\<close> discards \<open>a\<close>; otherwise the two are
  concatenated, with a separator unless \<open>a\<close> is empty or already ends with one.
\<close>

definition os_path_join :: "string \<Rightarrow> string \<Rightarrow> string" where
  "os_path_join a b =
     (if startswith b ''/'' then b
      else if a = [] \<or> endswith a ''/'' then a @ b
      else a @ ''/'' @ b)"

text \<open>
  \<^verbatim>\<open>posixpath.dirname(p)\<close>: \<open>head = p[:p.rfind('/') + 1]\<close>, and unless \<open>head\<close> is
  empty or consists of separators only, its trailing separators are stripped.
\<close>

definition os_path_dirname :: "string \<Rightarrow> string" where
  "os_path_dirname p =
     (let head = rev (dropWhile (\<lambda>c. c \<noteq> CHR ''/'') (rev p))
      in if head \<noteq> [] \<and> head \<noteq> replicate (length head) (CHR ''/'')
         then rev (dropWhile (\<lambda>c. c = CHR ''/'') (rev head))
         else head)"

subsection \<open>The world the script runs in\<close>

text \<open>
  What \<^verbatim>\<open>os.stat\<close> finds at a path string is a regular file, a regular file the
  process may not open, a directory, or nothing. The text of a regular file either
  decodes as UTF-8 or does not.
\<close>

datatype file_content = Text string | Undecodable

datatype node = Regular file_content | Protected | Directory

datatype open_mode = ModeR | ModeW

datatype os_call = Walk string | Stat string | Open string open_mode

datatype exn = FileNotFoundError | IsADirectoryError | PermissionError

type_synonym walk_entry = "string \<times> string list \<times> string list"

text \<open>
  The world: the file system (\<open>nodes\<close>, and \<open>walks top\<close>, the triples
  \<open>(dirpath, dirnames, filenames)\<close> that \<^verbatim>\<open>os.walk(top)\<close> yields, in its traversal
  order), the file-system calls made so far (oldest first) and the lines printed so far.
  \<open>nodes\<close> is applied to the path string as the script passes it to the operating
  system, so the path resolution of the system (\<^verbatim>\<open>.\<close> and \<^verbatim>\<open>..\<close> components, repeated
  separators, symbolic links) is part of \<open>nodes\<close>. A name that a walk lists need not
  be a file that can be opened (a dangling symbolic link is listed among the files).
\<close>

record world =
  nodes :: "string \<Rightarrow> node option"
  walks :: "string \<Rightarrow> walk_entry list"
  calls :: "os_call list"
  stdout :: "string list"

definition os_stat :: "string \<Rightarrow> world \<Rightarrow> node option \<times> world" where
  "os_stat p w = (nodes w p, w\<lparr>calls := calls w @ [Stat p]\<rparr>)"

text \<open>
  \<^verbatim>\<open>genericpath.exists\<close> and \<^verbatim>\<open>genericpath.isdir\<close>: both call \<^verbatim>\<open>os.stat\<close> and
  answer \<open>False\<close> when it fails; \<open>isdir\<close> then looks at the file type.
\<close>

definition os_path_exists :: "string \<Rightarrow> world \<Rightarrow> bool \<times> world" where
  "os_path_exists p w = (case os_stat p w of (st, w') \<Rightarrow> (st \<noteq> None, w'))"

definition os_path_isdir :: "string \<Rightarrow> world \<Rightarrow> bool \<times> world" where
  "os_path_isdir p w = (case os_stat p w of (st, w') \<Rightarrow> (st = Some Directory, w'))"

definition os_walk :: "string \<Rightarrow> world \<Rightarrow> walk_entry list \<times> world" where
  "os_walk dir w = (walks w dir, w\<lparr>calls := calls w @ [Walk dir]\<rparr>)"

text \<open>
  \<^verbatim>\<open>open(p, mode)\<close>. Reading leaves the file system as it is. Writing (the mode the
  patch scripts of the repository use) creates the file or truncates it.
\<close>

definition py_open :: "string \<Rightarrow> open_mode \<Rightarrow> world \<Rightarrow> (exn + file_content) \<times> world" where
  "py_open p m w =
     (let w' = w\<lparr>calls := calls w @ [Open p m]\<rparr>
      in case nodes w p of
           Some Directory \<Rightarrow> (Inl IsADirectoryError, w')
         | Some Protected \<Rightarrow> (Inl PermissionError, w')
         | Some (Regular c) \<Rightarrow>
             (case m of
                ModeR \<Rightarrow> (Inr c, w')
              | ModeW \<Rightarrow> (Inr (Text []), w'\<lparr>nodes := (nodes w)(p \<mapsto> Regular (Text []))\<rparr>))
         | None \<Rightarrow>
             (case m of
                ModeR \<Rightarrow> (Inl FileNotFoundError, w')
              | ModeW \<Rightarrow> (Inr (Text []), w'\<lparr>nodes := (nodes w)(p \<mapsto> Regular (Text []))\<rparr>)))"

text \<open>\<^verbatim>\<open>f.read()\<close>: the text, or \<open>None\<close> for \<^verbatim>\<open>UnicodeDecodeError\<close>.\<close>

definition f_read :: "file_content \<Rightarrow> string option" where
  "f_read c = (case c of Text s \<Rightarrow> Some s | Undecodable \<Rightarrow> None)"

definition py_print :: "string \<Rightarrow> world \<Rightarrow> world" where
  "py_print line w = w\<lparr>stdout := stdout w @ [line]\<rparr>"

subsection \<open>Import extraction: \<^verbatim>\<open>re.findall(r'from\s+[\'"](.+)[\'"]', content)\<close>\<close>

text \<open>
  \<^verbatim>\<open>\s\<close> on a \<open>str\<close> pattern is Unicode white space; below 256 these are the code
  points 9 to 13, 28 to 32, 133 and 160. \<^verbatim>\<open>[\'"]\<close> is one of the two quote characters.
  \<^verbatim>\<open>.\<close> is any character but the line feed.
\<close>

definition is_space :: "char \<Rightarrow> bool" where
  "is_space c =
     (let n = (of_char c :: nat)
      in (9 \<le> n \<and> n \<le> 13) \<or> (28 \<le> n \<and> n \<le> 32) \<or> n = 133 \<or> n = 160)"

definition is_quote :: "char \<Rightarrow> bool" where
  "is_quote c = (c = CHR 0x27 \<or> c = CHR 0x22)"

definition is_dot :: "char \<Rightarrow> bool" where
  "is_dot c = (c \<noteq> CHR 0x0A)"

text \<open>
  The greedy \<^verbatim>\<open>(.+)[\'"]\<close> on the text after the opening quote: \<^verbatim>\<open>.+\<close> first takes
  the whole run of non-newline characters and then gives characters back, one at a
  time and down to one character, until the character after it is a quote. The
  result is the length of the group, or \<open>None\<close> when no length works.
\<close>

fun backtrack :: "string \<Rightarrow> nat \<Rightarrow> nat option" where
  "backtrack s 0 = None"
| "backtrack s (Suc k) =
     (if Suc k < length s \<and> is_quote (s ! Suc k) then Some (Suc k) else backtrack s k)"

definition group_len :: "string \<Rightarrow> nat option" where
  "group_len s = backtrack s (length (takeWhile is_dot s))"

text \<open>
  One attempt to match the whole pattern at the start of \<open>s\<close>: the literal
  \<^verbatim>\<open>from\<close>, the longest non-empty run of white space (a shorter run would leave white
  space where the quote must be), a quote, and the group with its closing quote.
  A match gives the group and the text after the match.
\<close>

definition match_here :: "string \<Rightarrow> (string \<times> string) option" where
  "match_here s =
     (if \<not> startswith s ''from'' then None
      else let s1 = drop 4 s;
               ws = takeWhile is_space s1;
               s2 = dropWhile is_space s1
           in if ws = [] then None
              else (case s2 of
                      [] \<Rightarrow> None
                    | q # s3 \<Rightarrow>
                        if \<not> is_quote q then None
                        else (case group_len s3 of
                                None \<Rightarrow> None
                              | Some k \<Rightarrow> Some (take k s3, drop (Suc k) s3))))"

text \<open>
  \<^verbatim>\<open>re.findall\<close>: scan from the left; where the pattern matches, take the group and go
  on after the match, elsewhere go on one character further.
\<close>

function re_findall :: "string \<Rightarrow> string list" where
  "re_findall [] = []"
| "re_findall (c # cs) =
     (case match_here (c # cs) of
        None \<Rightarrow> re_findall cs
      | Some (g, r) \<Rightarrow> g # re_findall r)"
  by pat_completeness auto
termination
proof (relation "measure length")
  show "wf (measure length)" by simp
next
  fix c :: char and cs :: string
  show "(cs, c # cs) \<in> measure length" by simp
next
  fix c :: char and cs :: string and m :: "string \<times> string" and g r :: string
  assume m: "match_here (c # cs) = Some m" and gr: "(g, r) = m"
  from m gr obtain q s3 k where s3: "dropWhile is_space (drop 4 (c # cs)) = q # s3"
    and r: "r = drop (Suc k) s3"
    unfolding match_here_def Let_def
    by (auto split: if_splits list.splits option.splits)
  have "length (dropWhile is_space (drop 4 (c # cs))) \<le> length (drop 4 (c # cs))"
    by (rule length_dropWhile_le)
  with s3 have "length s3 < length (c # cs)" by simp
  with r show "(r, c # cs) \<in> measure length" by simp
qed

subsection \<open>Resolution of one specifier (lines 20 to 55)\<close>

text \<open>The literal suffix list of both \<^verbatim>\<open>for ext in [...]\<close> loops.\<close>

definition exts :: "string list" where
  "exts = [''.ts'', ''.tsx'', ''.js'', ''.jsx'', ''/index.ts'', ''/index.tsx'', []]"

text \<open>
  The loop \<^verbatim>\<open>for ext in [...]: if os.path.exists(abs_path + ext): found = True; break\<close>
  over the suffixes still to try; the result is the value of \<open>found\<close> after the loop.
\<close>

fun probe :: "string \<Rightarrow> string list \<Rightarrow> world \<Rightarrow> bool \<times> world" where
  "probe abs_path [] w = (False, w)"
| "probe abs_path (ext # rest) w =
     (case os_path_exists (abs_path @ ext) w of
        (hit, w') \<Rightarrow> if hit then (True, w') else probe abs_path rest w')"

text \<open>
  Lines 35 to 37, entered with \<open>found = False\<close>: the directory test, then the two
  index files under a short-circuit \<^verbatim>\<open>or\<close>. The result is \<open>found\<close> afterwards.
\<close>

definition index_fallback :: "string \<Rightarrow> world \<Rightarrow> bool \<times> world" where
  "index_fallback abs_path w =
     (case os_path_isdir abs_path w of
        (is_dir, w1) \<Rightarrow>
          if is_dir then
            (case os_path_exists (os_path_join abs_path ''index.ts'') w1 of
               (hit, w2) \<Rightarrow>
                 if hit then (True, w2)
                 else os_path_exists (os_path_join abs_path ''index.tsx'') w2)
          else (False, w1))"

text \<open>The f-string of lines 40 and 54.\<close>

definition missing_line :: "string \<Rightarrow> string \<Rightarrow> string" where
  "missing_line filepath imp = ''Missing import in '' @ filepath @ '': '' @ imp"

text \<open>
  The body of \<^verbatim>\<open>for imp in imports\<close>: the alias branch (lines 21 to 41), the
  relative branch (lines 42 to 55), and nothing for any other specifier. It takes the
  counter and the world and gives both back.
\<close>

definition check_import :: "string \<Rightarrow> string \<Rightarrow> string \<Rightarrow> nat \<Rightarrow> world \<Rightarrow> nat \<times> world" where
  "check_import root_dir filepath imp error_count w =
     (if startswith imp ''@/'' then
        (let rel_path = drop 2 imp;
             abs_path = os_path_join root_dir rel_path
         in case probe abs_path exts w of
              (found, w1) \<Rightarrow>
                (case (if \<not> found then index_fallback abs_path w1 else (found, w1)) of
                   (found, w2) \<Rightarrow>
                     if \<not> found
                     then (error_count + 1, py_print (missing_line filepath imp) w2)
                     else (error_count, w2)))
      else if startswith imp ''.'' then
        (let dir_path = os_path_dirname filepath;
             abs_path = os_path_join dir_path imp
         in case probe abs_path exts w of
              (found, w1) \<Rightarrow>
                if \<not> found
                then (error_count + 1, py_print (missing_line filepath imp) w1)
                else (error_count, w1))
      else (error_count, w))"

fun imports_loop :: "string \<Rightarrow> string \<Rightarrow> string list \<Rightarrow> nat \<Rightarrow> world \<Rightarrow> nat \<times> world" where
  "imports_loop root_dir filepath [] error_count w = (error_count, w)"
| "imports_loop root_dir filepath (imp # imports) error_count w =
     (case check_import root_dir filepath imp error_count w of
        (error_count', w') \<Rightarrow> imports_loop root_dir filepath imports error_count' w')"

subsection \<open>The walk (lines 6 to 58)\<close>

text \<open>
  The body of \<^verbatim>\<open>for file in files\<close>. An exception of \<^verbatim>\<open>open\<close> is not caught and
  ends the run (\<open>Some e\<close>); \<^verbatim>\<open>UnicodeDecodeError\<close> of \<^verbatim>\<open>f.read()\<close> is caught and
  the loop goes on with the next file.
\<close>

definition process_file ::
  "string \<Rightarrow> string \<Rightarrow> string \<Rightarrow> nat \<Rightarrow> world \<Rightarrow> exn option \<times> nat \<times> world" where
  "process_file root_dir subdir file error_count w =
     (if endswith file ''.tsx'' \<or> endswith file ''.ts'' then
        (let filepath = os_path_join subdir file
         in case py_open filepath ModeR w of
              (Inl e, w') \<Rightarrow> (Some e, error_count, w')
            | (Inr f, w') \<Rightarrow>
                (case f_read f of
                   None \<Rightarrow> (None, error_count, w')
                 | Some content \<Rightarrow>
                     (None, imports_loop root_dir filepath (re_findall content) error_count w')))
      else (None, error_count, w))"

fun files_loop ::
  "string \<Rightarrow> string \<Rightarrow> string list \<Rightarrow> nat \<Rightarrow> world \<Rightarrow> exn option \<times> nat \<times> world" where
  "files_loop root_dir subdir [] error_count w = (None, error_count, w)"
| "files_loop root_dir subdir (file # files) error_count w =
     (case process_file root_dir subdir file error_count w of
        (Some e, error_count', w') \<Rightarrow> (Some e, error_count', w')
      | (None, error_count', w') \<Rightarrow> files_loop root_dir subdir files error_count' w')"

fun walk_loop ::
  "string \<Rightarrow> walk_entry list \<Rightarrow> nat \<Rightarrow> world \<Rightarrow> exn option \<times> nat \<times> world" where
  "walk_loop root_dir [] error_count w = (None, error_count, w)"
| "walk_loop root_dir ((subdir, dirs, files) # entries) error_count w =
     (case files_loop root_dir subdir files error_count w of
        (Some e, error_count', w') \<Rightarrow> (Some e, error_count', w')
      | (None, error_count', w') \<Rightarrow> walk_loop root_dir entries error_count' w')"

definition success_line :: string where
  "success_line = ''No missing imports found.''"

text \<open>
  \<^verbatim>\<open>check_imports(root_dir)\<close>. The result is the uncaught exception, if any, the final
  value of \<open>error_count\<close> and the world after the run.
\<close>

definition check_imports :: "string \<Rightarrow> world \<Rightarrow> exn option \<times> nat \<times> world" where
  "check_imports root_dir w =
     (case os_walk root_dir w of
        (entries, w0) \<Rightarrow>
          (case walk_loop root_dir entries 0 w0 of
             (Some e, error_count, w1) \<Rightarrow> (Some e, error_count, w1)
           | (None, error_count, w1) \<Rightarrow>
               (None, error_count,
                if error_count = 0 then py_print success_line w1 else w1)))"

subsection \<open>Notions used to state the properties\<close>

text \<open>
  A world that differs from \<open>w\<close> by further calls and further printed lines only.
\<close>

definition adv :: "world \<Rightarrow> os_call list \<Rightarrow> string list \<Rightarrow> world" where
  "adv w cs out = w\<lparr>calls := calls w @ cs, stdout := stdout w @ out\<rparr>"

text \<open>The calls that change the file system: only opening for writing does.\<close>

fun mutating :: "os_call \<Rightarrow> bool" where
  "mutating (Open p ModeW) = True"
| "mutating _ = False"

abbreviation exists_at :: "world \<Rightarrow> string \<Rightarrow> bool" where
  "exists_at w p \<equiv> fst (os_path_exists p w)"

abbreviation isdir_at :: "world \<Rightarrow> string \<Rightarrow> bool" where
  "isdir_at w p \<equiv> fst (os_path_isdir p w)"

text \<open>
  The paths a short-circuit scan over the suffixes \<open>sfxs\<close> looks at: every candidate
  that does not exist, up to and including the first one that does.
\<close>

definition tested :: "world \<Rightarrow> string \<Rightarrow> string list \<Rightarrow> string list" where
  "tested w b sfxs =
     map (\<lambda>e. b @ e)
       (takeWhile (\<lambda>e. \<not> exists_at w (b @ e)) sfxs @
        take 1 (dropWhile (\<lambda>e. \<not> exists_at w (b @ e)) sfxs))"

text \<open>
  Resolution as the specification words it: the base path of the alias form and
  of the relative form (no base path for any other specifier); a base path is found
  when one of the seven candidates exists, or when it is an existing directory that
  holds \<^verbatim>\<open>index.ts\<close> or \<^verbatim>\<open>index.tsx\<close>; a specifier with a base path that is not found
  is missing.
\<close>

definition spec_base :: "string \<Rightarrow> string \<Rightarrow> string \<Rightarrow> string option" where
  "spec_base root file imp =
     (if startswith imp ''@/'' then Some (os_path_join root (drop 2 imp))
      else if startswith imp ''.'' then Some (os_path_join (os_path_dirname file) imp)
      else None)"

definition spec_found :: "world \<Rightarrow> string \<Rightarrow> bool" where
  "spec_found w b =
     ((\<exists>e\<in>set exts. exists_at w (b @ e)) \<or>
      (isdir_at w b \<and>
       (exists_at w (os_path_join b ''index.ts'') \<or> exists_at w (os_path_join b ''index.tsx''))))"

definition spec_missing :: "world \<Rightarrow> string \<Rightarrow> string \<Rightarrow> string \<Rightarrow> bool" where
  "spec_missing w root file imp =
     (case spec_base root file imp of None \<Rightarrow> False | Some b \<Rightarrow> \<not> spec_found w b)"

text \<open>
  The references of a run in discovery order: the entries of the walk in order,
  the files of an entry in order, the specifiers of a file in order of appearance.
  Only decodable files with one of the two source suffixes have specifiers.
\<close>

definition source_specifiers :: "world \<Rightarrow> string \<Rightarrow> string \<Rightarrow> string list" where
  "source_specifiers w subdir file =
     (if endswith file ''.tsx'' \<or> endswith file ''.ts'' then
        (case nodes w (os_path_join subdir file) of
           Some (Regular (Text content)) \<Rightarrow> re_findall content
         | _ \<Rightarrow> [])
      else [])"

definition discovered :: "world \<Rightarrow> string \<Rightarrow> (string \<times> string) list" where
  "discovered w root =
     concat (map (\<lambda>(subdir, dirs, files).
                concat (map (\<lambda>file. map (Pair (os_path_join subdir file))
                                       (source_specifiers w subdir file)) files))
             (walks w root))"

definition missing_refs :: "world \<Rightarrow> string \<Rightarrow> (string \<times> string) list \<Rightarrow> (string \<times> string) list" where
  "missing_refs w root refs = filter (\<lambda>(file, imp). spec_missing w root file imp) refs"

definition report :: "(string \<times> string) list \<Rightarrow> string list" where
  "report refs = map (\<lambda>(file, imp). missing_line file imp) refs"

definition lines_of :: "world \<Rightarrow> string \<Rightarrow> string \<Rightarrow> string \<Rightarrow> string list" where
  "lines_of w root subdir file =
     report (missing_refs w root (map (Pair (os_path_join subdir file)) (source_specifiers w subdir file)))"

definition entry_lines :: "world \<Rightarrow> string \<Rightarrow> walk_entry \<Rightarrow> string list" where
  "entry_lines w root entry =
     (case entry of (subdir, dirs, files) \<Rightarrow> concat (map (lines_of w root subdir) files))"

subsection \<open>Example worlds\<close>

text \<open>
  A small tree under \<^verbatim>\<open>/r\<close>. The file \<^verbatim>\<open>a.ts\<close> imports a sibling that exists as
  \<^verbatim>\<open>b.tsx\<close>, an aliased module that exists, a package, and a sibling that does not
  exist; \<^verbatim>\<open>bad.ts\<close> is not valid UTF-8. The path \<^verbatim>\<open>/r/./b.tsx\<close> is the string under
  which the script looks the sibling up.
\<close>

definition quoted :: "string \<Rightarrow> string" where
  "quoted s = CHR 0x27 # s @ [CHR 0x27]"

definition demo_text :: string where
  "demo_text =
     ''import b from '' @ quoted ''./b'' @ [CHR 0x0A] @
     ''import u from '' @ quoted ''@/lib/util'' @ [CHR 0x0A] @
     ''import React from '' @ quoted ''react'' @ [CHR 0x0A] @
     ''import m from '' @ quoted ''./missing'' @ [CHR 0x0A]"

definition demo_world :: world where
  "demo_world =
     \<lparr>nodes = map_of
        [(''/r/a.ts'', Regular (Text demo_text)),
         (''/r/b.tsx'', Regular (Text [])),
         (''/r/./b.tsx'', Regular (Text [])),
         (''/r/bad.ts'', Regular Undecodable),
         (''/r/notes.txt'', Regular (Text [])),
         (''/r/lib'', Directory),
         (''/r/lib/util.ts'', Regular (Text []))],
      walks = (\<lambda>d. if d = ''/r''
                   then [(''/r'', [''lib''], [''a.ts'', ''b.tsx'', ''bad.ts'', ''notes.txt'']),
                         (''/r/lib'', [], [''util.ts''])]
                   else []),
      calls = [], stdout = []\<rparr>"

text \<open>
  A component in a subdirectory that imports \<^verbatim>\<open>../shared/widget\<close>, a directory with an
  index file and no direct file.
\<close>

definition subdir_world :: world where
  "subdir_world =
     \<lparr>nodes = map_of
        [(''/r/components/a.tsx'', Regular (Text (''import w from '' @ quoted ''../shared/widget''))),
         (''/r/components/../shared/widget'', Directory),
         (''/r/components/../shared/widget/index.tsx'', Regular (Text []))],
      walks = (\<lambda>d. if d = ''/r''
                   then [(''/r'', [''components'', ''shared''], []),
                         (''/r/components'', [], [''a.tsx'']),
                         (''/r/shared'', [''widget''], []),
                         (''/r/shared/widget'', [], [''index.tsx''])]
                   else []),
      calls = [], stdout = []\<rparr>"

text \<open>A directory that holds \<^verbatim>\<open>index.tsx\<close> and no \<^verbatim>\<open>index.ts\<close>.\<close>

definition index_dir_world :: world where
  "index_dir_world =
     \<lparr>nodes = map_of [(''/r/pkg'', Directory), (''/r/pkg/index.tsx'', Regular (Text []))],
      walks = (\<lambda>d. []),
      calls = [], stdout = []\<rparr>"

text \<open>A tree whose only entry is a dangling symbolic link named \<^verbatim>\<open>a.ts\<close>.\<close>

definition broken_link_world :: world where
  "broken_link_world =
     \<lparr>nodes = (\<lambda>p. None),
      walks = (\<lambda>d. if d = ''/r'' then [(''/r'', [], [''a.ts''])] else []),
      calls = [], stdout = []\<rparr>"

text \<open>One line of source text with two import statements.\<close>

definition one_line_two_imports :: string where
  "one_line_two_imports =
     ''import a from '' @ quoted ''./a'' @ ''; import b from '' @ quoted ''./b'' @ '';''"

section \<open>Auxiliary facts\<close>

lemma adv_simps [simp]:
  "nodes (adv w cs out) = nodes w"
  "walks (adv w cs out) = walks w"
  "calls (adv w cs out) = calls w @ cs"
  "stdout (adv w cs out) = stdout w @ out"
  "adv (adv w cs out) cs' out' = adv w (cs @ cs') (out @ out')"
  "adv w [] [] = w"
  by (simp_all add: adv_def)

lemma os_path_exists_adv: "os_path_exists p w = (nodes w p \<noteq> None, adv w [Stat p] [])"
  by (simp add: os_path_exists_def os_stat_def adv_def)

lemma os_path_isdir_adv: "os_path_isdir p w = (nodes w p = Some Directory, adv w [Stat p] [])"
  by (simp add: os_path_isdir_def os_stat_def adv_def)

lemma py_print_adv: "py_print l w = adv w [] [l]"
  by (simp add: py_print_def adv_def)

lemma probe_adv:
  "probe b es w =
     (\<exists>e\<in>set es. nodes w (b @ e) \<noteq> None,
      adv w (map (\<lambda>e. Stat (b @ e))
               (takeWhile (\<lambda>e. nodes w (b @ e) = None) es @
                take 1 (dropWhile (\<lambda>e. nodes w (b @ e) = None) es))) [])"
  by (induction es arbitrary: w) (auto simp: os_path_exists_adv)

lemma index_fallback_adv:
  "index_fallback b w =
     (nodes w b = Some Directory \<and>
        (nodes w (os_path_join b ''index.ts'') \<noteq> None \<or> nodes w (os_path_join b ''index.tsx'') \<noteq> None),
      adv w (Stat b #
             (if nodes w b = Some Directory
              then Stat (os_path_join b ''index.ts'') #
                   (if nodes w (os_path_join b ''index.ts'') \<noteq> None then []
                    else [Stat (os_path_join b ''index.tsx'')])
              else [])) [])"
  by (auto simp: index_fallback_def os_path_isdir_adv os_path_exists_adv)

lemma empty_in_exts: "[] \<in> set exts"
  by (simp add: exts_def)

lemma exists_at_iff [simp]: "exists_at w p = (nodes w p \<noteq> None)"
  by (simp add: os_path_exists_adv)

lemma isdir_at_iff [simp]: "isdir_at w p = (nodes w p = Some Directory)"
  by (simp add: os_path_isdir_adv)

lemma no_candidate_no_base: "\<not> (\<exists>e\<in>set exts. nodes w (b @ e) \<noteq> None) \<Longrightarrow> nodes w b = None"
  using empty_in_exts by force

lemma spec_found_iff: "spec_found w b = (\<exists>e\<in>set exts. nodes w (b @ e) \<noteq> None)"
proof (cases "\<exists>e\<in>set exts. nodes w (b @ e) \<noteq> None")
  case True
  then show ?thesis by (simp add: spec_found_def del: bex_simps)
next
  case False
  from no_candidate_no_base [OF False] False show ?thesis
    by (simp add: spec_found_def del: bex_simps)
qed

lemma probe_tested:
  "probe b es w = (\<exists>e\<in>set es. nodes w (b @ e) \<noteq> None, adv w (map Stat (tested w b es)) [])"
  by (simp add: probe_adv tested_def comp_def)

lemma check_import_alias:
  assumes "startswith imp ''@/''"
  shows "check_import root f imp n w =
     (let b = os_path_join root (drop 2 imp);
          hit = (\<exists>e\<in>set exts. nodes w (b @ e) \<noteq> None)
      in (if hit then n else Suc n,
          adv w (map Stat (tested w b exts) @ (if hit then [] else [Stat b]))
                (if hit then [] else [missing_line f imp])))"
proof (cases "\<exists>e\<in>set exts. nodes w (os_path_join root (drop 2 imp) @ e) \<noteq> None")
  case True
  with assms show ?thesis
    by (simp add: check_import_def probe_tested Let_def del: bex_simps)
next
  case False
  from no_candidate_no_base [OF False] False assms show ?thesis
    by (simp add: check_import_def probe_tested Let_def index_fallback_adv py_print_adv del: bex_simps)
qed

lemma relative_not_alias: "startswith imp ''.'' \<Longrightarrow> \<not> startswith imp ''@/''"
  by (cases imp) (auto simp: startswith_def)

lemma check_import_relative:
  assumes "startswith imp ''.''"
  shows "check_import root f imp n w =
     (let b = os_path_join (os_path_dirname f) imp;
          hit = (\<exists>e\<in>set exts. nodes w (b @ e) \<noteq> None)
      in (if hit then n else Suc n,
          adv w (map Stat (tested w b exts)) (if hit then [] else [missing_line f imp])))"
  using assms relative_not_alias [OF assms]
  by (simp add: check_import_def probe_tested Let_def py_print_adv del: bex_simps)

lemma check_import_bare:
  "\<not> startswith imp ''@/'' \<Longrightarrow> \<not> startswith imp ''.'' \<Longrightarrow> check_import root f imp n w = (n, w)"
  by (simp add: check_import_def)

lemma check_import_spec:
  "\<exists>cs. (\<forall>c\<in>set cs. \<not> mutating c) \<and>
        check_import root f imp n w =
          (if spec_missing w root f imp then Suc n else n,
           adv w cs (if spec_missing w root f imp then [missing_line f imp] else []))"
proof -
  consider (ali) "startswith imp ''@/''"
    | (rel) "\<not> startswith imp ''@/''" "startswith imp ''.''"
    | (bare) "\<not> startswith imp ''@/''" "\<not> startswith imp ''.''"
    by blast
  then show ?thesis
  proof cases
    case ali
    show ?thesis
      apply (rule exI [of _ "map Stat (tested w (os_path_join root (drop 2 imp)) exts) @
          (if (\<exists>e\<in>set exts. nodes w (os_path_join root (drop 2 imp) @ e) \<noteq> None) then [] else [Stat (os_path_join root (drop 2 imp))])"])
      using ali
      by (auto simp: check_import_alias Let_def spec_missing_def spec_base_def spec_found_iff)
  next
    case rel
    show ?thesis
      apply (rule exI [of _ "map Stat (tested w (os_path_join (os_path_dirname f) imp) exts)"])
      using rel
      by (auto simp: check_import_relative Let_def spec_missing_def spec_base_def spec_found_iff)
  next
    case bare
    show ?thesis
      apply (rule exI [of _ "[]"])
      using bare
      by (simp add: check_import_bare spec_missing_def spec_base_def)
  qed
qed

lemma spec_missing_adv [simp]: "spec_missing (adv w cs out) = spec_missing w"
  by (simp add: spec_missing_def spec_found_def fun_eq_iff split: option.splits)

lemma source_specifiers_adv [simp]: "source_specifiers (adv w cs out) = source_specifiers w"
  by (simp add: source_specifiers_def fun_eq_iff)

lemma missing_refs_adv [simp]: "missing_refs (adv w cs out) = missing_refs w"
  by (simp add: missing_refs_def fun_eq_iff)

lemma missing_refs_append [simp]:
  "missing_refs w root (xs @ ys) = missing_refs w root xs @ missing_refs w root ys"
  by (simp add: missing_refs_def)

lemma report_append [simp]: "report (xs @ ys) = report xs @ report ys"
  by (simp add: report_def)

lemma missing_refs_Pair:
  "missing_refs w root (map (Pair f) imps) = map (Pair f) (filter (spec_missing w root f) imps)"
  by (induction imps) (auto simp: missing_refs_def)

lemma report_Pair: "report (map (Pair f) imps) = map (missing_line f) imps"
  by (simp add: report_def)

lemma imports_loop_spec:
  "\<exists>cs. (\<forall>c\<in>set cs. \<not> mutating c) \<and>
        imports_loop root f imps n w =
          (n + length (filter (spec_missing w root f) imps),
           adv w cs (map (missing_line f) (filter (spec_missing w root f) imps)))"
proof (induction imps arbitrary: n w)
  case Nil
  show ?case by (rule exI [of _ "[]"]) simp
next
  case (Cons imp imps)
  let ?m = "spec_missing w root f imp"
  obtain cs1 where cs1: "\<forall>c\<in>set cs1. \<not> mutating c"
    and step: "check_import root f imp n w =
      (if ?m then Suc n else n, adv w cs1 (if ?m then [missing_line f imp] else []))"
    using check_import_spec [of root f imp n w] by blast
  obtain cs2 where cs2: "\<forall>c\<in>set cs2. \<not> mutating c"
    and rest: "imports_loop root f imps (if ?m then Suc n else n)
                 (adv w cs1 (if ?m then [missing_line f imp] else [])) =
      ((if ?m then Suc n else n) + length (filter (spec_missing w root f) imps),
       adv w (cs1 @ cs2) ((if ?m then [missing_line f imp] else []) @
              map (missing_line f) (filter (spec_missing w root f) imps)))"
    using Cons.IH [of "if ?m then Suc n else n" "adv w cs1 (if ?m then [missing_line f imp] else [])"]
    by auto
  show ?case
    apply (rule exI [of _ "cs1 @ cs2"])
    using cs1 cs2 by (auto simp: step rest)
qed

lemma process_file_spec:
  "\<exists>e cs out. (\<forall>c\<in>set cs. \<not> mutating c) \<and> (\<forall>l\<in>set out. \<exists>f i. l = missing_line f i) \<and>
        process_file root subdir file n w = (e, n + length out, adv w cs out) \<and>
        (e = None \<longrightarrow> out = lines_of w root subdir file)"
proof (cases "endswith file ''.tsx'' \<or> endswith file ''.ts''")
  case False
  then show ?thesis
    by (intro exI [of _ None] exI [of _ "[]"])
       (simp add: process_file_def lines_of_def source_specifiers_def report_def missing_refs_def)
next
  case sfx: True
  let ?p = "os_path_join subdir file"
  let ?w' = "adv w [Open ?p ModeR] []"
  have w': "w\<lparr>calls := calls w @ [Open ?p ModeR]\<rparr> = ?w'" by (simp add: adv_def)
  show ?thesis
  proof (cases "nodes w ?p")
    case None
    with sfx show ?thesis
      by (intro exI [of _ "Some FileNotFoundError"] exI [of _ "[Open ?p ModeR]"] exI [of _ "[]"])
         (simp add: process_file_def py_open_def w' del: disj_not1)
  next
    case (Some nd)
    show ?thesis
    proof (cases nd)
      case Directory
      with Some sfx show ?thesis
        by (intro exI [of _ "Some IsADirectoryError"] exI [of _ "[Open ?p ModeR]"] exI [of _ "[]"])
           (simp add: process_file_def py_open_def w')
    next
      case Protected
      with Some sfx show ?thesis
        by (intro exI [of _ "Some PermissionError"] exI [of _ "[Open ?p ModeR]"] exI [of _ "[]"])
           (simp add: process_file_def py_open_def w')
    next
      case (Regular c)
      show ?thesis
      proof (cases c)
        case Undecodable
        with Regular Some sfx show ?thesis
          by (intro exI [of _ None] exI [of _ "[Open ?p ModeR]"] exI [of _ "[]"])
             (simp add: process_file_def py_open_def w' f_read_def lines_of_def
                source_specifiers_def report_def missing_refs_def)
      next
        case (Text content)
        obtain cs where cs: "\<forall>c\<in>set cs. \<not> mutating c"
          and loop: "imports_loop root ?p (re_findall content) n ?w' =
            (n + length (filter (spec_missing w root ?p) (re_findall content)),
             adv w ([Open ?p ModeR] @ cs)
               (map (missing_line ?p) (filter (spec_missing w root ?p) (re_findall content))))"
          using imports_loop_spec [of root ?p "re_findall content" n ?w'] by auto
        from Text Regular Some sfx cs show ?thesis
          by (intro exI [of _ None] exI [of _ "[Open ?p ModeR] @ cs"]
                exI [of _ "map (missing_line ?p) (filter (spec_missing w root ?p) (re_findall content))"])
             (auto simp: process_file_def py_open_def w' f_read_def loop lines_of_def
                source_specifiers_def missing_refs_Pair report_Pair Let_def)
      qed
    qed
  qed
qed

lemma lines_of_adv [simp]: "lines_of (adv w cs out) = lines_of w"
  by (simp add: lines_of_def fun_eq_iff)

lemma files_loop_spec:
  "\<exists>e cs out. (\<forall>c\<in>set cs. \<not> mutating c) \<and> (\<forall>l\<in>set out. \<exists>f i. l = missing_line f i) \<and>
        files_loop root subdir fls n w = (e, n + length out, adv w cs out) \<and>
        (e = None \<longrightarrow> out = concat (map (lines_of w root subdir) fls))"
proof (induction fls arbitrary: n w)
  case Nil
  show ?case by (intro exI [of _ None] exI [of _ "[]"]) simp
next
  case (Cons fl fls)
  obtain e1 cs1 out1 where cs1: "\<forall>c\<in>set cs1. \<not> mutating c"
    and out1: "\<forall>l\<in>set out1. \<exists>f i. l = missing_line f i"
    and step: "process_file root subdir fl n w = (e1, n + length out1, adv w cs1 out1)"
    and ok1: "e1 = None \<longrightarrow> out1 = lines_of w root subdir fl"
    using process_file_spec [of root subdir fl n w] by blast
  show ?case
  proof (cases e1)
    case (Some x)
    with cs1 out1 step show ?thesis
      by (intro exI [of _ "Some x"] exI [of _ cs1] exI [of _ out1]) simp
  next
    case None
    obtain e2 cs2 out2 where cs2: "\<forall>c\<in>set cs2. \<not> mutating c"
      and out2: "\<forall>l\<in>set out2. \<exists>f i. l = missing_line f i"
      and rest: "files_loop root subdir fls (n + length out1) (adv w cs1 out1) =
                   (e2, n + length out1 + length out2, adv w (cs1 @ cs2) (out1 @ out2))"
      and ok2: "e2 = None \<longrightarrow> out2 = concat (map (lines_of w root subdir) fls)"
      using Cons.IH [of "n + length out1" "adv w cs1 out1"] by auto
    have run: "files_loop root subdir (fl # fls) n w =
                 (e2, n + length (out1 @ out2), adv w (cs1 @ cs2) (out1 @ out2))"
      using None by (simp add: step rest)
    have mis: "\<forall>l\<in>set (out1 @ out2). \<exists>f i. l = missing_line f i"
      using out1 out2 by auto
    have nm: "\<forall>c\<in>set (cs1 @ cs2). \<not> mutating c"
      using cs1 cs2 by auto
    have ok: "e2 = None \<longrightarrow> out1 @ out2 = concat (map (lines_of w root subdir) (fl # fls))"
      using None ok1 ok2 by simp
    from nm mis run ok show ?thesis by blast
  qed
qed

lemma entry_lines_adv [simp]: "entry_lines (adv w cs out) = entry_lines w"
  by (simp add: entry_lines_def fun_eq_iff)

lemma walk_loop_spec:
  "\<exists>e cs out. (\<forall>c\<in>set cs. \<not> mutating c) \<and> (\<forall>l\<in>set out. \<exists>f i. l = missing_line f i) \<and>
        walk_loop root entries n w = (e, n + length out, adv w cs out) \<and>
        (e = None \<longrightarrow> out = concat (map (entry_lines w root) entries))"
proof (induction entries arbitrary: n w)
  case Nil
  show ?case by (intro exI [of _ None] exI [of _ "[]"]) simp
next
  case (Cons entry entries)
  obtain subdir dirs fls where entry: "entry = (subdir, dirs, fls)"
    by (cases entry)
  obtain e1 cs1 out1 where cs1: "\<forall>c\<in>set cs1. \<not> mutating c"
    and out1: "\<forall>l\<in>set out1. \<exists>f i. l = missing_line f i"
    and step: "files_loop root subdir fls n w = (e1, n + length out1, adv w cs1 out1)"
    and ok1: "e1 = None \<longrightarrow> out1 = entry_lines w root entry"
    using files_loop_spec [of root subdir fls n w] unfolding entry entry_lines_def by auto
  show ?case
  proof (cases e1)
    case (Some x)
    with cs1 out1 step show ?thesis
      by (intro exI [of _ "Some x"] exI [of _ cs1] exI [of _ out1]) (simp add: entry)
  next
    case None
    obtain e2 cs2 out2 where cs2: "\<forall>c\<in>set cs2. \<not> mutating c"
      and out2: "\<forall>l\<in>set out2. \<exists>f i. l = missing_line f i"
      and rest: "walk_loop root entries (n + length out1) (adv w cs1 out1) =
                   (e2, n + length out1 + length out2, adv w (cs1 @ cs2) (out1 @ out2))"
      and ok2: "e2 = None \<longrightarrow> out2 = concat (map (entry_lines w root) entries)"
      using Cons.IH [of "n + length out1" "adv w cs1 out1"] by auto
    have run: "walk_loop root (entry # entries) n w =
                 (e2, n + length (out1 @ out2), adv w (cs1 @ cs2) (out1 @ out2))"
      using None by (simp add: entry step rest)
    have mis: "\<forall>l\<in>set (out1 @ out2). \<exists>f i. l = missing_line f i"
      using out1 out2 by auto
    have nm: "\<forall>c\<in>set (cs1 @ cs2). \<not> mutating c"
      using cs1 cs2 by auto
    have ok: "e2 = None \<longrightarrow> out1 @ out2 = concat (map (entry_lines w root) (entry # entries))"
      using None ok1 ok2 by simp
    from nm mis run ok show ?thesis by blast
  qed
qed

lemma report_discovered:
  "report (missing_refs w root (discovered w root)) = concat (map (entry_lines w root) (walks w root))"
proof -
  have files: "report (missing_refs w root (concat (map (\<lambda>file. map (Pair (os_path_join subdir file))
                                       (source_specifiers w subdir file)) fls))) =
        concat (map (lines_of w root subdir) fls)" for subdir fls
    by (induction fls) (simp_all add: lines_of_def report_def missing_refs_def)
  have "report (missing_refs w root (concat (map (\<lambda>(subdir, dirs, files).
                concat (map (\<lambda>file. map (Pair (os_path_join subdir file))
                                       (source_specifiers w subdir file)) files)) es))) =
        concat (map (entry_lines w root) es)" for es
  proof (induction es)
    case Nil
    show ?case by (simp add: report_def missing_refs_def)
  next
    case (Cons a es)
    then show ?case using files by (cases a) (simp add: entry_lines_def)
  qed
  then show ?thesis by (simp add: discovered_def)
qed

lemma missing_line_not_success: "missing_line f i \<noteq> success_line"
  by (simp add: missing_line_def success_line_def)

lemma check_imports_spec:
  "\<exists>e cs out. (\<forall>c\<in>set cs. \<not> mutating c) \<and> (\<forall>l\<in>set out. \<exists>f i. l = missing_line f i) \<and>
        check_imports root w =
          (e, length out, adv w cs (out @ (if e = None \<and> out = [] then [success_line] else []))) \<and>
        (e = None \<longrightarrow> out = report (missing_refs w root (discovered w root)))"
proof -
  let ?w0 = "adv w [Walk root] []"
  have walk: "os_walk root w = (walks w root, ?w0)"
    by (simp add: os_walk_def adv_def)
  obtain e cs out where cs: "\<forall>c\<in>set cs. \<not> mutating c"
    and out: "\<forall>l\<in>set out. \<exists>f i. l = missing_line f i"
    and loop: "walk_loop root (walks w root) 0 ?w0 = (e, length out, adv w (Walk root # cs) out)"
    and ok: "e = None \<longrightarrow> out = concat (map (entry_lines w root) (walks w root))"
    using walk_loop_spec [of root "walks w root" 0 ?w0] by auto
  from cs out ok show ?thesis
    by (intro exI [of _ e] exI [of _ "Walk root # cs"] exI [of _ out])
       (cases e; auto simp: check_imports_def walk loop py_print_adv report_discovered)
qed

lemma py_open_for_writing_mutates:
  "nodes w p = None \<Longrightarrow> nodes (snd (py_open p ModeW w)) \<noteq> nodes w"
  by (auto simp: py_open_def fun_eq_iff intro: exI [of _ p])

lemma dropWhile_to_last_slash:
  assumes "CHR ''/'' \<notin> set name"
  shows "dropWhile (\<lambda>c. c \<noteq> CHR ''/'') (rev (xs @ CHR ''/'' # name)) = CHR ''/'' # rev xs"
proof -
  have "dropWhile (\<lambda>c. c \<noteq> CHR ''/'') (rev name @ CHR ''/'' # rev xs) = CHR ''/'' # rev xs"
    using assms by (subst dropWhile_append2) auto
  then show ?thesis by simp
qed

lemma os_path_dirname_of_file:
  assumes name: "CHR ''/'' \<notin> set name" and d: "d \<noteq> []" "last d \<noteq> CHR ''/''"
  shows "os_path_dirname (d @ replicate (Suc k) (CHR ''/'') @ name) = d"
proof -
  let ?s = "replicate k (CHR ''/'')"
  have split: "d @ replicate (Suc k) (CHR ''/'') @ name = (d @ ?s) @ CHR ''/'' # name"
    by (simp add: replicate_append_same)
  have e: "(d @ ?s) @ [CHR ''/''] = d @ replicate (Suc k) (CHR ''/'')"
    by (simp add: replicate_append_same)
  have "rev (dropWhile (\<lambda>c. c \<noteq> CHR ''/'') (rev ((d @ ?s) @ CHR ''/'' # name))) =
        (d @ ?s) @ [CHR ''/'']"
    unfolding dropWhile_to_last_slash [OF name] by simp
  then have head: "rev (dropWhile (\<lambda>c. c \<noteq> CHR ''/'') (rev (d @ replicate (Suc k) (CHR ''/'') @ name))) =
              d @ replicate (Suc k) (CHR ''/'')"
    unfolding e split .
  obtain ys y where dy: "d = ys @ [y]"
    using d(1) by (cases d rule: rev_cases) auto
  with d(2) have y: "y \<noteq> CHR ''/''" by simp
  have "rev (d @ replicate (Suc k) (CHR ''/'')) = replicate (Suc k) (CHR ''/'') @ rev d"
    by (simp add: replicate_append_same)
  moreover have "dropWhile (\<lambda>c. c = CHR ''/'') (replicate (Suc k) (CHR ''/'') @ rev d) = rev d"
    unfolding dy using y by (subst dropWhile_append2) auto
  ultimately have strip: "rev (dropWhile (\<lambda>c. c = CHR ''/'') (rev (d @ replicate (Suc k) (CHR ''/'')))) = d"
    by simp
  have "last d \<in> set (d @ replicate (Suc k) (CHR ''/''))" using d by simp
  then have notall: "d @ replicate (Suc k) (CHR ''/'') \<noteq>
                     replicate (length (d @ replicate (Suc k) (CHR ''/''))) (CHR ''/'')"
    using d(2) by (metis in_set_replicate)
  show ?thesis
    unfolding os_path_dirname_def Let_def head
    using notall strip d by simp
qed

lemma os_path_dirname_top:
  assumes name: "CHR ''/'' \<notin> set name"
  shows "os_path_dirname (replicate (Suc k) (CHR ''/'') @ name) = replicate (Suc k) (CHR ''/'')"
proof -
  let ?s = "replicate k (CHR ''/'')"
  have split: "replicate (Suc k) (CHR ''/'') @ name = ?s @ CHR ''/'' # name"
    by (simp add: replicate_append_same)
  have head: "rev (dropWhile (\<lambda>c. c \<noteq> CHR ''/'') (rev (replicate (Suc k) (CHR ''/'') @ name))) =
              replicate (Suc k) (CHR ''/'')"
    unfolding split dropWhile_to_last_slash [OF name]
    by (simp add: replicate_append_same)
  show ?thesis
    unfolding os_path_dirname_def Let_def head by simp
qed

lemma os_path_dirname_bare:
  assumes name: "CHR ''/'' \<notin> set name"
  shows "os_path_dirname name = []"
proof -
  have "dropWhile (\<lambda>c. c \<noteq> CHR ''/'') (rev name) = []"
    using name by auto
  then show ?thesis unfolding os_path_dirname_def Let_def by simp
qed

lemma join_relative:
  assumes "startswith imp ''.''" and "d \<noteq> []" and "last d \<noteq> CHR ''/''"
  shows "os_path_join d imp = d @ ''/'' @ imp"
proof -
  from assms(1) have "\<not> startswith imp ''/''"
    by (cases imp) (auto simp: startswith_def)
  moreover from assms(2,3) have "\<not> endswith d ''/''"
    by (cases d rule: rev_cases) (simp_all add: endswith_def)
  ultimately show ?thesis using assms(2) by (simp add: os_path_join_def)
qed

lemma join_top:
  assumes "startswith imp ''.''"
  shows "os_path_join (replicate (Suc k) (CHR ''/'')) imp = replicate (Suc k) (CHR ''/'') @ imp"
proof -
  from assms have "\<not> startswith imp ''/''"
    by (cases imp) (auto simp: startswith_def)
  moreover have "endswith (replicate k (CHR ''/'') @ ''/'') ''/''"
    by (simp add: endswith_def)
  then have "endswith (replicate (Suc k) (CHR ''/'')) ''/''"
    by (simp only: replicate_append_same replicate.simps)
  ultimately show ?thesis by (simp add: os_path_join_def)
qed

lemma join_empty:
  assumes "startswith imp ''.''"
  shows "os_path_join [] imp = imp"
proof -
  from assms have "\<not> startswith imp ''/''"
    by (cases imp) (auto simp: startswith_def)
  then show ?thesis by (simp add: os_path_join_def)
qed

lemma findall_single_import:
  "re_findall (''import a from '' @ quoted ''./a'' @ '';'') = [''./a'']"
  by code_simp

section \<open>The claims\<close>

text \<open>
  C1. A specifier of the alias form or of the relative form has the base path \<open>b\<close>.
  The existence tests the script makes for it are those of \<open>b\<close> with the suffixes
  \<^verbatim>\<open>.ts\<close>, \<^verbatim>\<open>.tsx\<close>, \<^verbatim>\<open>.js\<close>, \<^verbatim>\<open>.jsx\<close>, \<^verbatim>\<open>/index.ts\<close>, \<^verbatim>\<open>/index.tsx\<close> and the empty
  suffix, in this order, up to and including the first candidate that exists (after
  an unsuccessful scan the alias form adds the directory test of the fallback). The
  specifier is resolved, with the counter unchanged and nothing printed, exactly when
  a candidate or the fallback exists; otherwise it is counted and reported.
\<close>

theorem candidates_tested_in_order:
  assumes "startswith imp ''@/'' \<and> b = os_path_join root (drop 2 imp) \<or>
           startswith imp ''.'' \<and> b = os_path_join (os_path_dirname f) imp"
  shows "calls (snd (check_import root f imp n w)) =
           calls w @
           map Stat (tested w b [''.ts'', ''.tsx'', ''.js'', ''.jsx'', ''/index.ts'', ''/index.tsx'', []]) @
           (if startswith imp ''@/'' \<and> \<not> spec_found w b then [Stat b] else []) \<and>
         fst (check_import root f imp n w) = (if spec_found w b then n else Suc n) \<and>
         stdout (snd (check_import root f imp n w)) =
           stdout w @ (if spec_found w b then [] else [missing_line f imp])"
  using assms
proof (elim disjE conjE)
  assume a: "startswith imp ''@/''" and b: "b = os_path_join root (drop 2 imp)"
  show ?thesis
    unfolding check_import_alias [OF a] b Let_def spec_found_iff
    by (simp add: a exts_def del: bex_simps)
next
  assume r: "startswith imp ''.''" and b: "b = os_path_join (os_path_dirname f) imp"
  show ?thesis
    unfolding check_import_relative [OF r] b Let_def spec_found_iff
    by (simp add: relative_not_alias [OF r] exts_def del: bex_simps)
qed

theorem candidates_tested_in_order_witness:
  "(startswith ''./b'' ''@/'' \<and> ''/r/./b'' = os_path_join ''/r'' (drop 2 ''./b'') \<or>
    startswith ''./b'' ''.'' \<and> ''/r/./b'' = os_path_join (os_path_dirname ''/r/a.ts'') ''./b'') \<and>
   calls (snd (check_import ''/r'' ''/r/a.ts'' ''./b'' 0 demo_world)) =
     [Stat ''/r/./b.ts'', Stat ''/r/./b.tsx''] \<and>
   fst (check_import ''/r'' ''/r/a.ts'' ''./b'' 0 demo_world) = 0 \<and>
   stdout (snd (check_import ''/r'' ''/r/a.ts'' ''./b'' 0 demo_world)) = []"
proof -
  have h: "startswith ''./b'' ''@/'' \<and> ''/r/./b'' = os_path_join ''/r'' (drop 2 ''./b'') \<or>
    startswith ''./b'' ''.'' \<and> ''/r/./b'' = os_path_join (os_path_dirname ''/r/a.ts'') ''./b''"
    by code_simp
  have t: "tested demo_world ''/r/./b''
             [''.ts'', ''.tsx'', ''.js'', ''.jsx'', ''/index.ts'', ''/index.tsx'', []] =
           [''/r/./b.ts'', ''/r/./b.tsx'']"
    by code_simp
  have f: "spec_found demo_world ''/r/./b''" by code_simp
  have c: "calls demo_world = []" "stdout demo_world = []" by code_simp+
  from candidates_tested_in_order [where n = 0 and w = demo_world, OF h] h
  show ?thesis by (simp add: t f c)
qed




text \<open>
  C3. For a specifier that starts with \<^verbatim>\<open>@/\<close> the base path is the root joined with
  the specifier without its first two characters: the classification is decided by
  the candidates of that path, every file-system call made is a \<open>stat\<close> of that path
  with one of the suffixes, and neither the classification nor the calls depend on
  the importing file.
\<close>

theorem alias_base_is_root_joined:
  assumes "startswith imp ''@/''"
  shows "fst (check_import root f imp n w) =
           (if \<exists>e\<in>set exts. exists_at w (os_path_join root (drop 2 imp) @ e) then n else Suc n) \<and>
         (\<forall>c\<in>set (drop (length (calls w)) (calls (snd (check_import root f imp n w)))).
            \<exists>e\<in>set exts. c = Stat (os_path_join root (drop 2 imp) @ e)) \<and>
         fst (check_import root f imp n w) = fst (check_import root g imp n w) \<and>
         calls (snd (check_import root f imp n w)) = calls (snd (check_import root g imp n w))"
proof -
  let ?b = "os_path_join root (drop 2 imp)"
  have sub: "set (tested w ?b exts) \<subseteq> (\<lambda>e. ?b @ e) ` set exts"
    unfolding tested_def
    using set_takeWhileD [of _ "\<lambda>e. \<not> exists_at w (?b @ e)" exts]
          set_dropWhileD [of _ "\<lambda>e. \<not> exists_at w (?b @ e)" exts]
          in_set_takeD [of _ 1 "dropWhile (\<lambda>e. \<not> exists_at w (?b @ e)) exts"]
    by auto
  have base: "Stat ?b \<in> (\<lambda>e. Stat (?b @ e)) ` set exts"
    using empty_in_exts by force
  show ?thesis
    unfolding check_import_alias [OF assms] Let_def
    using sub base by (auto simp del: bex_simps)
qed

theorem alias_base_is_root_joined_witness:
  "startswith ''@/lib/util'' ''@/'' \<and>
   fst (check_import ''/r'' ''/r/a.ts'' ''@/lib/util'' 0 demo_world) = 0 \<and>
   fst (check_import ''/r'' ''/r/lib/util.ts'' ''@/lib/util'' 0 demo_world) = 0 \<and>
   calls (snd (check_import ''/r'' ''/r/a.ts'' ''@/lib/util'' 0 demo_world)) =
   calls (snd (check_import ''/r'' ''/r/lib/util.ts'' ''@/lib/util'' 0 demo_world))"
proof -
  have a: "startswith ''@/lib/util'' ''@/''" by code_simp
  have e: "\<exists>e\<in>set exts. exists_at demo_world (os_path_join ''/r'' (drop 2 ''@/lib/util'') @ e)"
    by code_simp
  from alias_base_is_root_joined
         [OF a, where root = "''/r''" and f = "''/r/a.ts''" and g = "''/r/lib/util.ts''"
            and n = 0 and w = demo_world] a e
  show ?thesis by (simp del: bex_simps exists_at_iff)
qed

text \<open>
  C4. For a specifier that starts with \<^verbatim>\<open>.\<close> the base path is the directory of the
  owning file joined with the specifier: the classification is decided by the
  candidates of that path, every file-system call made is a \<open>stat\<close> of that path
  with one of the suffixes, and the whole step is the same for every root. The
  directory is the one that contains the file: for an owning file \<open>d/name\<close> (with
  \<open>name\<close> free of separators and \<open>d\<close> not ending in one) the tests are those of
  \<open>d/imp\<close> with the seven suffixes; for a file directly under \<^verbatim>\<open>/\<close> they are those
  of \<^verbatim>\<open>/\<close> followed by the specifier; for a file path without a directory part they
  are those of the specifier itself.
\<close>

theorem relative_base_is_file_directory_joined:
  assumes "startswith imp ''.''"
  shows "fst (check_import root f imp n w) =
           (if \<exists>e\<in>set exts. exists_at w (os_path_join (os_path_dirname f) imp @ e) then n else Suc n) \<and>
         (\<forall>c\<in>set (drop (length (calls w)) (calls (snd (check_import root f imp n w)))).
            \<exists>e\<in>set exts. c = Stat (os_path_join (os_path_dirname f) imp @ e)) \<and>
         check_import root f imp n w = check_import root' f imp n w \<and>
         (f = d @ replicate (Suc k) (CHR ''/'') @ name \<and> CHR ''/'' \<notin> set name \<and>
          d \<noteq> [] \<and> last d \<noteq> CHR ''/'' \<longrightarrow>
            os_path_dirname f = d \<and>
            calls (snd (check_import root f imp n w)) =
              calls w @
              map Stat (tested w (d @ ''/'' @ imp)
                          [''.ts'', ''.tsx'', ''.js'', ''.jsx'', ''/index.ts'', ''/index.tsx'', []]) \<and>
            fst (check_import root f imp n w) =
              (if \<exists>e\<in>set exts. exists_at w (d @ ''/'' @ imp @ e) then n else Suc n)) \<and>
         (f = replicate (Suc k) (CHR ''/'') @ name \<and> CHR ''/'' \<notin> set name \<longrightarrow>
            os_path_dirname f = replicate (Suc k) (CHR ''/'') \<and>
            calls (snd (check_import root f imp n w)) =
              calls w @
              map Stat (tested w (replicate (Suc k) (CHR ''/'') @ imp)
                          [''.ts'', ''.tsx'', ''.js'', ''.jsx'', ''/index.ts'', ''/index.tsx'', []])) \<and>
         (CHR ''/'' \<notin> set f \<longrightarrow>
            os_path_dirname f = [] \<and>
            calls (snd (check_import root f imp n w)) =
              calls w @
              map Stat (tested w imp
                          [''.ts'', ''.tsx'', ''.js'', ''.jsx'', ''/index.ts'', ''/index.tsx'', []]))"
proof -
  let ?b = "os_path_join (os_path_dirname f) imp"
  have sub: "set (tested w ?b exts) \<subseteq> (\<lambda>e. ?b @ e) ` set exts"
    unfolding tested_def
    using set_takeWhileD [of _ "\<lambda>e. \<not> exists_at w (?b @ e)" exts]
          set_dropWhileD [of _ "\<lambda>e. \<not> exists_at w (?b @ e)" exts]
          in_set_takeD [of _ 1 "dropWhile (\<lambda>e. \<not> exists_at w (?b @ e)) exts"]
    by auto
  have general: "fst (check_import root f imp n w) =
           (if \<exists>e\<in>set exts. exists_at w (?b @ e) then n else Suc n) \<and>
         (\<forall>c\<in>set (drop (length (calls w)) (calls (snd (check_import root f imp n w)))).
            \<exists>e\<in>set exts. c = Stat (?b @ e)) \<and>
         check_import root f imp n w = check_import root' f imp n w"
    unfolding check_import_relative [OF assms] Let_def
    using sub by (auto simp del: bex_simps)
  have cs: "calls (snd (check_import root f imp n w)) = calls w @ map Stat (tested w ?b exts)"
    unfolding check_import_relative [OF assms] Let_def by simp
  have cnt: "fst (check_import root f imp n w) =
           (if \<exists>e\<in>set exts. exists_at w (?b @ e) then n else Suc n)"
    using general by blast
  have sub1: "f = d @ replicate (Suc k) (CHR ''/'') @ name \<and> CHR ''/'' \<notin> set name \<and>
          d \<noteq> [] \<and> last d \<noteq> CHR ''/'' \<longrightarrow>
            os_path_dirname f = d \<and>
            calls (snd (check_import root f imp n w)) =
              calls w @
              map Stat (tested w (d @ ''/'' @ imp)
                          [''.ts'', ''.tsx'', ''.js'', ''.jsx'', ''/index.ts'', ''/index.tsx'', []]) \<and>
            fst (check_import root f imp n w) =
              (if \<exists>e\<in>set exts. exists_at w (d @ ''/'' @ imp @ e) then n else Suc n)"
  proof (intro impI, elim conjE)
    assume f: "f = d @ replicate (Suc k) (CHR ''/'') @ name" and nm: "CHR ''/'' \<notin> set name"
      and d: "d \<noteq> []" "last d \<noteq> CHR ''/''"
    have dn: "os_path_dirname f = d"
      unfolding f by (rule os_path_dirname_of_file [OF nm d])
    have b: "?b = d @ ''/'' @ imp"
      unfolding dn by (rule join_relative [OF assms d])
    from dn cs cnt show "os_path_dirname f = d \<and>
            calls (snd (check_import root f imp n w)) =
              calls w @
              map Stat (tested w (d @ ''/'' @ imp)
                          [''.ts'', ''.tsx'', ''.js'', ''.jsx'', ''/index.ts'', ''/index.tsx'', []]) \<and>
            fst (check_import root f imp n w) =
              (if \<exists>e\<in>set exts. exists_at w (d @ ''/'' @ imp @ e) then n else Suc n)"
      unfolding b by (simp add: exts_def del: bex_simps)
  qed
  have sub2: "f = replicate (Suc k) (CHR ''/'') @ name \<and> CHR ''/'' \<notin> set name \<longrightarrow>
            os_path_dirname f = replicate (Suc k) (CHR ''/'') \<and>
            calls (snd (check_import root f imp n w)) =
              calls w @
              map Stat (tested w (replicate (Suc k) (CHR ''/'') @ imp)
                          [''.ts'', ''.tsx'', ''.js'', ''.jsx'', ''/index.ts'', ''/index.tsx'', []])"
  proof (intro impI, elim conjE)
    assume f: "f = replicate (Suc k) (CHR ''/'') @ name" and nm: "CHR ''/'' \<notin> set name"
    have dn: "os_path_dirname f = replicate (Suc k) (CHR ''/'')"
      unfolding f by (rule os_path_dirname_top [OF nm])
    have b: "?b = replicate (Suc k) (CHR ''/'') @ imp"
      unfolding dn by (rule join_top [OF assms])
    from dn cs show "os_path_dirname f = replicate (Suc k) (CHR ''/'') \<and>
            calls (snd (check_import root f imp n w)) =
              calls w @
              map Stat (tested w (replicate (Suc k) (CHR ''/'') @ imp)
                          [''.ts'', ''.tsx'', ''.js'', ''.jsx'', ''/index.ts'', ''/index.tsx'', []])"
      unfolding b by (simp add: exts_def)
  qed
  have sub3: "CHR ''/'' \<notin> set f \<longrightarrow>
            os_path_dirname f = [] \<and>
            calls (snd (check_import root f imp n w)) =
              calls w @
              map Stat (tested w imp
                          [''.ts'', ''.tsx'', ''.js'', ''.jsx'', ''/index.ts'', ''/index.tsx'', []])"
  proof
    assume nm: "CHR ''/'' \<notin> set f"
    have dn: "os_path_dirname f = []" by (rule os_path_dirname_bare [OF nm])
    have b: "?b = imp" unfolding dn by (rule join_empty [OF assms])
    from dn cs show "os_path_dirname f = [] \<and>
            calls (snd (check_import root f imp n w)) =
              calls w @
              map Stat (tested w imp
                          [''.ts'', ''.tsx'', ''.js'', ''.jsx'', ''/index.ts'', ''/index.tsx'', []])"
      unfolding b by (simp add: exts_def)
  qed
  from general sub1 sub2 sub3 show ?thesis by blast
qed

theorem relative_base_is_file_directory_joined_witness:
  "startswith ''../shared/widget'' ''.'' \<and>
   ''/r/components/a.tsx'' = ''/r/components'' @ replicate (Suc 0) (CHR ''/'') @ ''a.tsx'' \<and>
   CHR ''/'' \<notin> set ''a.tsx'' \<and> ''/r/components'' \<noteq> [] \<and> last ''/r/components'' \<noteq> CHR ''/'' \<and>
   os_path_dirname ''/r/components/a.tsx'' = ''/r/components'' \<and>
   calls (snd (check_import ''/r'' ''/r/components/a.tsx'' ''../shared/widget'' 0 subdir_world)) =
     [Stat ''/r/components/../shared/widget.ts'', Stat ''/r/components/../shared/widget.tsx'',
      Stat ''/r/components/../shared/widget.js'', Stat ''/r/components/../shared/widget.jsx'',
      Stat ''/r/components/../shared/widget/index.ts'',
      Stat ''/r/components/../shared/widget/index.tsx''] \<and>
   fst (check_import ''/r'' ''/r/components/a.tsx'' ''../shared/widget'' 0 subdir_world) = 0 \<and>
   check_import ''/r'' ''/r/components/a.tsx'' ''../shared/widget'' 0 subdir_world =
   check_import ''/elsewhere'' ''/r/components/a.tsx'' ''../shared/widget'' 0 subdir_world"
proof -
  have r: "startswith ''../shared/widget'' ''.''" by code_simp
  have p: "''/r/components/a.tsx'' = ''/r/components'' @ replicate (Suc 0) (CHR ''/'') @ ''a.tsx'' \<and>
           CHR ''/'' \<notin> set ''a.tsx'' \<and> ''/r/components'' \<noteq> [] \<and> last ''/r/components'' \<noteq> CHR ''/''"
    by code_simp
  have t: "tested subdir_world (''/r/components'' @ ''/'' @ ''../shared/widget'')
             [''.ts'', ''.tsx'', ''.js'', ''.jsx'', ''/index.ts'', ''/index.tsx'', []] =
           [''/r/components/../shared/widget.ts'', ''/r/components/../shared/widget.tsx'',
            ''/r/components/../shared/widget.js'', ''/r/components/../shared/widget.jsx'',
            ''/r/components/../shared/widget/index.ts'',
            ''/r/components/../shared/widget/index.tsx'']"
    by code_simp
  have e: "\<exists>e\<in>set exts. exists_at subdir_world (''/r/components'' @ ''/'' @ ''../shared/widget'' @ e)"
    by code_simp
  have c: "calls subdir_world = []" by code_simp
  note th = relative_base_is_file_directory_joined
         [OF r, where root = "''/r''" and f = "''/r/components/a.tsx''" and root' = "''/elsewhere''"
            and n = 0 and w = subdir_world and d = "''/r/components''" and k = 0 and name = "''a.tsx''"]
  from th p have pinned:
    "os_path_dirname ''/r/components/a.tsx'' = ''/r/components'' \<and>
     calls (snd (check_import ''/r'' ''/r/components/a.tsx'' ''../shared/widget'' 0 subdir_world)) =
       calls subdir_world @
       map Stat (tested subdir_world (''/r/components'' @ ''/'' @ ''../shared/widget'')
                   [''.ts'', ''.tsx'', ''.js'', ''.jsx'', ''/index.ts'', ''/index.tsx'', []]) \<and>
     fst (check_import ''/r'' ''/r/components/a.tsx'' ''../shared/widget'' 0 subdir_world) =
       (if \<exists>e\<in>set exts. exists_at subdir_world (''/r/components'' @ ''/'' @ ''../shared/widget'' @ e)
        then 0 else Suc 0)"
    by blast
  from pinned have 1: "os_path_dirname ''/r/components/a.tsx'' = ''/r/components''" by blast
  from pinned have 2:
    "calls (snd (check_import ''/r'' ''/r/components/a.tsx'' ''../shared/widget'' 0 subdir_world)) =
     [Stat ''/r/components/../shared/widget.ts'', Stat ''/r/components/../shared/widget.tsx'',
      Stat ''/r/components/../shared/widget.js'', Stat ''/r/components/../shared/widget.jsx'',
      Stat ''/r/components/../shared/widget/index.ts'',
      Stat ''/r/components/../shared/widget/index.tsx'']"
    unfolding t c by simp
  from pinned e have 3:
    "fst (check_import ''/r'' ''/r/components/a.tsx'' ''../shared/widget'' 0 subdir_world) = 0"
    by (simp del: bex_simps exists_at_iff)
  from th have 4: "check_import ''/r'' ''/r/components/a.tsx'' ''../shared/widget'' 0 subdir_world =
   check_import ''/elsewhere'' ''/r/components/a.tsx'' ''../shared/widget'' 0 subdir_world"
    by blast
  from r p 1 2 3 4 show ?thesis by blast
qed

text \<open>
  C5. A specifier that starts with neither \<^verbatim>\<open>.\<close> nor \<^verbatim>\<open>@/\<close> leaves the counter and
  the world as they are, whatever the file system holds: no file-system call, no
  printed line, no increment; the loop goes on with the next specifier.
\<close>

theorem bare_specifier_ignored:
  assumes "\<not> startswith imp ''@/''" and "\<not> startswith imp ''.''"
  shows "check_import root f imp n w = (n, w) \<and>
         imports_loop root f (imp # imps) n w = imports_loop root f imps n w"
  using assms by (simp add: check_import_bare)

theorem bare_specifier_ignored_witness:
  "\<not> startswith ''react'' ''@/'' \<and> \<not> startswith ''react'' ''.'' \<and>
   check_import ''/r'' ''/r/a.ts'' ''react'' 0 demo_world = (0, demo_world)"
proof -
  have a: "\<not> startswith ''react'' ''@/''" by code_simp
  have r: "\<not> startswith ''react'' ''.''" by code_simp
  from bare_specifier_ignored [OF a r] a r show ?thesis by simp
qed

text \<open>
  C6. The extraction does not return each quoted specifier that follows its own
  \<^verbatim>\<open>from\<close> as an element of its own: the group \<^verbatim>\<open>(.+)\<close> is greedy and runs to the
  last quote character of the line. On a line with two import statements
  \<^verbatim>\<open>re.findall\<close> returns one element that spans both, not the two specifiers.
\<close>

theorem findall_runs_to_last_quote_of_line:
  "re_findall one_line_two_imports = [''./a'' @ [CHR 0x27] @ ''; import b from '' @ [CHR 0x27] @ ''./b''] \<and>
   re_findall one_line_two_imports \<noteq> [''./a'', ''./b'']"
  by code_simp




text \<open>
  C8. A source file whose content is not valid UTF-8 raises nothing and changes
  neither the counter nor the output: the file is opened, the decoding error of
  \<^verbatim>\<open>f.read()\<close> is caught, and the loops go on with the remaining files of the
  directory and the remaining directories.
\<close>

theorem undecodable_file_skipped:
  assumes "endswith fl ''.tsx'' \<or> endswith fl ''.ts''"
    and "nodes w (os_path_join subdir fl) = Some (Regular Undecodable)"
  shows "process_file root subdir fl n w =
           (None, n, w\<lparr>calls := calls w @ [Open (os_path_join subdir fl) ModeR]\<rparr>) \<and>
         files_loop root subdir (fl # fls) n w =
           files_loop root subdir fls n (w\<lparr>calls := calls w @ [Open (os_path_join subdir fl) ModeR]\<rparr>) \<and>
         walk_loop root ((subdir, dirs, fl # fls) # entries) n w =
           walk_loop root ((subdir, dirs, fls) # entries) n
             (w\<lparr>calls := calls w @ [Open (os_path_join subdir fl) ModeR]\<rparr>)"
proof -
  have p: "process_file root subdir fl n w =
           (None, n, w\<lparr>calls := calls w @ [Open (os_path_join subdir fl) ModeR]\<rparr>)"
    using assms by (simp add: process_file_def py_open_def f_read_def Let_def del: disj_not1)
  then show ?thesis by simp
qed

theorem undecodable_file_skipped_witness:
  "(endswith ''bad.ts'' ''.tsx'' \<or> endswith ''bad.ts'' ''.ts'') \<and>
   nodes demo_world (os_path_join ''/r'' ''bad.ts'') = Some (Regular Undecodable) \<and>
   process_file ''/r'' ''/r'' ''bad.ts'' 1 demo_world =
     (None, 1, demo_world\<lparr>calls := [Open ''/r/bad.ts'' ModeR]\<rparr>) \<and>
   files_loop ''/r'' ''/r'' [''bad.ts'', ''notes.txt''] 1 demo_world =
     files_loop ''/r'' ''/r'' [''notes.txt''] 1 (demo_world\<lparr>calls := [Open ''/r/bad.ts'' ModeR]\<rparr>)"
proof -
  have s: "endswith ''bad.ts'' ''.tsx'' \<or> endswith ''bad.ts'' ''.ts''" by code_simp
  have u: "nodes demo_world (os_path_join ''/r'' ''bad.ts'') = Some (Regular Undecodable)"
    by code_simp
  have j: "os_path_join ''/r'' ''bad.ts'' = ''/r/bad.ts''" by code_simp
  have c: "calls demo_world = []" by code_simp
  from undecodable_file_skipped
         [OF s u, where root = "''/r''" and n = 1 and fls = "[''notes.txt'']"] s u
  show ?thesis by (simp add: j c)
qed

text \<open>
  C9. A run leaves the file system as it was: what is found at every path and what
  a walk yields are unchanged, and no call the run makes is one that changes the
  file system.
\<close>

theorem check_imports_read_only:
  "nodes (snd (snd (check_imports root w))) = nodes w \<and>
   walks (snd (snd (check_imports root w))) = walks w \<and>
   (\<exists>cs. calls (snd (snd (check_imports root w))) = calls w @ cs \<and> (\<forall>c\<in>set cs. \<not> mutating c))"
proof -
  obtain e cs out where cs: "\<forall>c\<in>set cs. \<not> mutating c"
    and run: "check_imports root w =
                (e, length out, adv w cs (out @ (if e = None \<and> out = [] then [success_line] else [])))"
    using check_imports_spec [of root w] by blast
  from cs show ?thesis by (auto simp: run)
qed

theorem check_imports_read_only_witness:
  "nodes (snd (snd (check_imports ''/r'' demo_world))) = nodes demo_world \<and>
   walks (snd (snd (check_imports ''/r'' demo_world))) = walks demo_world \<and>
   \<not> list_ex mutating (calls (snd (snd (check_imports ''/r'' demo_world))))"
proof -
  have c: "calls demo_world = []" by code_simp
  from check_imports_read_only [of "''/r''" demo_world] c
  show ?thesis by (auto simp: list_ex_iff)
qed

text \<open>
  C10. The directory-index fallback of the alias branch never decides: if the base
  path is an existing directory, the scan of the seven candidates has already found
  the empty-suffix candidate; whenever the scan finds nothing, the fallback makes
  its directory test, finds no directory, and leaves \<open>found\<close> false; so an alias
  specifier is classified by the result of the scan alone.
\<close>

theorem index_fallback_never_fires:
  "(isdir_at w b \<longrightarrow> fst (probe b exts w)) \<and>
   (\<not> fst (probe b exts w) \<longrightarrow>
      index_fallback b (snd (probe b exts w)) =
        (False, (snd (probe b exts w))\<lparr>calls := calls (snd (probe b exts w)) @ [Stat b]\<rparr>)) \<and>
   (startswith imp ''@/'' \<longrightarrow>
      (fst (check_import root f imp n w) = n) = fst (probe (os_path_join root (drop 2 imp)) exts w) \<and>
      (fst (check_import root f imp n w) = Suc n) =
        (\<not> fst (probe (os_path_join root (drop 2 imp)) exts w)))"
proof (intro conjI impI)
  assume "isdir_at w b"
  then have "nodes w (b @ []) \<noteq> None" by simp
  with empty_in_exts have "\<exists>e\<in>set exts. nodes w (b @ e) \<noteq> None" by blast
  then show "fst (probe b exts w)" by (simp add: probe_tested del: bex_simps)
next
  assume "\<not> fst (probe b exts w)"
  then have no: "\<not> (\<exists>e\<in>set exts. nodes w (b @ e) \<noteq> None)"
    by (simp add: probe_tested del: bex_simps)
  from no_candidate_no_base [OF no]
  show "index_fallback b (snd (probe b exts w)) =
        (False, (snd (probe b exts w))\<lparr>calls := calls (snd (probe b exts w)) @ [Stat b]\<rparr>)"
    by (simp add: probe_tested index_fallback_adv adv_def)
next
  assume a: "startswith imp ''@/''"
  show "(fst (check_import root f imp n w) = n) =
        fst (probe (os_path_join root (drop 2 imp)) exts w)"
    unfolding check_import_alias [OF a] Let_def by (simp add: probe_tested del: bex_simps)
next
  assume a: "startswith imp ''@/''"
  show "(fst (check_import root f imp n w) = Suc n) =
        (\<not> fst (probe (os_path_join root (drop 2 imp)) exts w))"
    unfolding check_import_alias [OF a] Let_def by (simp add: probe_tested del: bex_simps)
qed

theorem index_fallback_never_fires_witness:
  "isdir_at demo_world ''/r/lib'' \<and> fst (probe ''/r/lib'' exts demo_world) \<and>
   \<not> fst (probe ''/r/./missing'' exts demo_world) \<and>
   \<not> fst (index_fallback ''/r/./missing'' (snd (probe ''/r/./missing'' exts demo_world))) \<and>
   startswith ''@/lib'' ''@/'' \<and>
   fst (check_import ''/r'' ''/r/a.ts'' ''@/lib'' 0 demo_world) = 0"
proof -
  have d: "isdir_at demo_world ''/r/lib''" by code_simp
  have m: "\<not> fst (probe ''/r/./missing'' exts demo_world)" by code_simp
  have a: "startswith ''@/lib'' ''@/''" by code_simp
  have j: "os_path_join ''/r'' (drop 2 ''@/lib'') = ''/r/lib''" by code_simp
  note t = index_fallback_never_fires
             [where w = demo_world and b = "''/r/lib''" and imp = "''@/lib''"
                and root = "''/r''" and f = "''/r/a.ts''" and n = 0]
  from t d have 1: "fst (probe ''/r/lib'' exts demo_world)" by blast
  from index_fallback_never_fires [where w = demo_world and b = "''/r/./missing''"] m
  have 2: "\<not> fst (index_fallback ''/r/./missing'' (snd (probe ''/r/./missing'' exts demo_world)))"
    by simp
  from t a have "(fst (check_import ''/r'' ''/r/a.ts'' ''@/lib'' 0 demo_world) = 0) =
      fst (probe (os_path_join ''/r'' (drop 2 ''@/lib'')) exts demo_world)"
    by blast
  with 1 have 3: "fst (check_import ''/r'' ''/r/a.ts'' ''@/lib'' 0 demo_world) = 0"
    by (simp only: j)
  from d 1 m 2 a 3 show ?thesis by blast
qed

end
